theory Spec2Isabelle
  imports Complex_Main "HOL-Library.Word"
begin

section \<open>Python values and exceptions\<close>

text \<open>
  The per-frame detection-to-redaction pipeline of the repository is embedded as HOL
  functions. Python floats are idealised as \<^typ>\<open>real\<close>; every theorem below that
  involves a float computation either holds for all reals or is stated at values where
  IEEE double arithmetic is exact. Exceptions are values of the type \<open>error\<close>.
\<close>

datatype error =
    ImportError
  | IndexError
  | ZeroDivisionError
  | ValueError
  | TypeError
  | CvError
  | ModelError

text \<open>Python's \<open>int(x)\<close> on a float: truncation toward zero.\<close>

definition py_int :: "real \<Rightarrow> int" where
  "py_int x = (if 0 \<le> x then \<lfloor>x\<rfloor> else \<lceil>x\<rceil>)"

text \<open>Python list indexing \<open>xs[i]\<close>: a negative index counts from the end.\<close>

definition py_index :: "'a list \<Rightarrow> int \<Rightarrow> error + 'a" where
  "py_index xs i =
     (if 0 \<le> i \<and> i < int (length xs) then Inr (xs ! nat i)
      else if i < 0 \<and> - int (length xs) \<le> i then Inr (xs ! nat (int (length xs) + i))
      else Inl IndexError)"

text \<open>
  The start or stop of a slice \<open>a[i:j]\<close> over an axis of length \<open>n\<close>: a negative bound
  counts from the end, and the bound is clipped to \<open>[0, n]\<close>.
\<close>

definition slice_bound :: "nat \<Rightarrow> int \<Rightarrow> nat" where
  "slice_bound n i = (if i < 0 then nat (max 0 (int n + i)) else min (nat i) n)"

section \<open>Label registry\<close>

text \<open>The module-level table \<open>__labels\<close> of \<open>test_pytorch_model.py\<close>.\<close>

definition labels :: "string list" where
  "labels =
    [''FEMALE_GENITALIA_COVERED'', ''FACE_FEMALE'', ''BUTTOCKS_EXPOSED'',
     ''FEMALE_BREAST_EXPOSED'', ''FEMALE_GENITALIA_EXPOSED'', ''MALE_BREAST_EXPOSED'',
     ''ANUS_EXPOSED'', ''FEET_EXPOSED'', ''BELLY_COVERED'', ''FEET_COVERED'',
     ''ARMPITS_COVERED'', ''ARMPITS_EXPOSED'', ''FACE_MALE'', ''BELLY_EXPOSED'',
     ''MALE_GENITALIA_EXPOSED'', ''ANUS_COVERED'', ''FEMALE_BREAST_COVERED'',
     ''BUTTOCKS_COVERED'']"

definition get_labels :: "string list" where
  "get_labels = labels"

text \<open>The fallback table of \<open>_extract_blur_regions\<close> when the import fails.\<close>

definition placeholder_labels :: "string list" where
  "placeholder_labels =
    [''BUTTOCKS_EXPOSED'', ''FEMALE_BREAST_EXPOSED'', ''FEMALE_GENITALIA_EXPOSED'',
     ''MALE_GENITALIA_EXPOSED'', ''ANUS_EXPOSED'']"

text \<open>
  The keys of \<open>UltraFastNSFWProcessor.nsfw_classes\<close>, which is also the list
  \<open>VideoStreamProcessor.nudity_classes\<close>.
\<close>

definition nsfw_classes_default :: "string list" where
  "nsfw_classes_default =
    [''BUTTOCKS_EXPOSED'', ''FEMALE_BREAST_EXPOSED'', ''FEMALE_GENITALIA_EXPOSED'',
     ''MALE_GENITALIA_EXPOSED'', ''ANUS_EXPOSED'']"

section \<open>Detector output and regions\<close>

text \<open>
  One detected box as the detector returns it: \<open>box.xyxy[0].tolist()\<close>,
  \<open>box.conf[0].item()\<close> and \<open>box.cls[0].item()\<close>. A result \<open>r\<close> of the detector
  has \<open>r.boxes\<close>, which is \<open>None\<close> or a sequence of boxes.
\<close>

record box =
  xyxy :: "real \<times> real \<times> real \<times> real"
  conf :: real
  cls :: real

type_synonym results = "box list option list"

text \<open>A blur region is the tuple \<open>(x1, y1, x2, y2, class_name, conf)\<close>.\<close>

type_synonym region = "int \<times> int \<times> int \<times> int \<times> string \<times> real"

text \<open>\<open>x1, y1, x2, y2 = map(int, coords)\<close>\<close>

definition int_coords :: "real \<times> real \<times> real \<times> real \<Rightarrow> int \<times> int \<times> int \<times> int" where
  "int_coords c = (case c of (x1, y1, x2, y2) \<Rightarrow> (py_int x1, py_int y1, py_int x2, py_int y2))"

text \<open>
  Scaling back to the original size: \<open>if resize_factor != 1.0: scale = 1.0 / resize_factor;
  x1, y1, x2, y2 = [int(coord * scale) for coord in [x1, y1, x2, y2]]\<close>.
\<close>

definition scale_coords :: "real \<Rightarrow> int \<times> int \<times> int \<times> int \<Rightarrow> error + (int \<times> int \<times> int \<times> int)" where
  "scale_coords resize_factor c =
     (case c of (x1, y1, x2, y2) \<Rightarrow>
        if resize_factor \<noteq> 1 then
          (if resize_factor = 0 then Inl ZeroDivisionError
           else let scale = 1 / resize_factor
                in Inr (py_int (real_of_int x1 * scale), py_int (real_of_int y1 * scale),
                        py_int (real_of_int x2 * scale), py_int (real_of_int y2 * scale)))
        else Inr (x1, y1, x2, y2))"

text \<open>
  The bounds step shared by \<open>_extract_blur_regions\<close> and \<open>apply_fast_blur\<close>:
  \<open>x1 = max(0, min(x1, width)); y1 = max(0, min(y1, height));
  x2 = max(x1, min(x2, width)); y2 = max(y1, min(y2, height))\<close>.
\<close>

definition clamp_box :: "nat \<Rightarrow> nat \<Rightarrow> int \<times> int \<times> int \<times> int \<Rightarrow> int \<times> int \<times> int \<times> int" where
  "clamp_box height width c =
     (case c of (x1, y1, x2, y2) \<Rightarrow>
        let x1' = max 0 (min x1 (int width));
            y1' = max 0 (min y1 (int height));
            x2' = max x1' (min x2 (int width));
            y2' = max y1' (min y2 (int height))
        in (x1', y1', x2', y2'))"

section \<open>Region extraction of the Flask processor\<close>

text \<open>
  The body of the inner loop of \<open>UltraFastNSFWProcessor._extract_blur_regions\<close> for one
  box: \<open>None\<close> when the box is skipped, a region when it is appended. The confidence is
  not compared here: the threshold is handed to the detector call only.
\<close>

definition extract_box ::
  "string list \<Rightarrow> string list \<Rightarrow> nat \<times> nat \<Rightarrow> real \<Rightarrow> box \<Rightarrow> error + region option" where
  "extract_box labs nsfw_classes original_shape resize_factor b =
     (let coords = xyxy b; cf = conf b; c = py_int (cls b)
      in if c < int (length labs) then
           (case py_index labs c of
              Inl e \<Rightarrow> Inl e
            | Inr class_name \<Rightarrow>
                if class_name \<in> set nsfw_classes then
                  (case scale_coords resize_factor (int_coords coords) of
                     Inl e \<Rightarrow> Inl e
                   | Inr sc \<Rightarrow>
                       (case original_shape of (height, width) \<Rightarrow>
                          (case clamp_box height width sc of (x1, y1, x2, y2) \<Rightarrow>
                             Inr (Some (x1, y1, x2, y2, class_name, cf)))))
                else Inr None)
         else Inr None)"

fun extract_boxes ::
  "string list \<Rightarrow> string list \<Rightarrow> nat \<times> nat \<Rightarrow> real \<Rightarrow> box list \<Rightarrow> region list \<Rightarrow> error + region list" where
  "extract_boxes labs nsfw shp rf [] acc = Inr acc"
| "extract_boxes labs nsfw shp rf (b # bs) acc =
     (case extract_box labs nsfw shp rf b of
        Inl e \<Rightarrow> Inl e
      | Inr None \<Rightarrow> extract_boxes labs nsfw shp rf bs acc
      | Inr (Some r) \<Rightarrow> extract_boxes labs nsfw shp rf bs (acc @ [r]))"

fun extract_results ::
  "string list \<Rightarrow> string list \<Rightarrow> nat \<times> nat \<Rightarrow> real \<Rightarrow> results \<Rightarrow> region list \<Rightarrow> error + region list" where
  "extract_results labs nsfw shp rf [] acc = Inr acc"
| "extract_results labs nsfw shp rf (r # rs) acc =
     (case r of
        None \<Rightarrow> extract_results labs nsfw shp rf rs acc
      | Some boxes \<Rightarrow>
          (case extract_boxes labs nsfw shp rf boxes acc of
             Inl e \<Rightarrow> Inl e
           | Inr acc' \<Rightarrow> extract_results labs nsfw shp rf rs acc'))"

text \<open>
  \<open>_extract_blur_regions(results, original_shape, resize_factor)\<close>. The first argument
  is the outcome of \<open>from test_pytorch_model import get_labels\<close>: \<open>None\<close> is the
  \<open>ImportError\<close>, which selects the placeholder table.
\<close>

definition extract_blur_regions ::
  "string list option \<Rightarrow> string list \<Rightarrow> results \<Rightarrow> nat \<times> nat \<Rightarrow> real \<Rightarrow> error + region list" where
  "extract_blur_regions imported nsfw_classes res original_shape resize_factor =
     (let labs = (case imported of Some l \<Rightarrow> l | None \<Rightarrow> placeholder_labels)
      in extract_results labs nsfw_classes original_shape resize_factor res [])"

section \<open>Region selection of the video stream processor\<close>




section \<open>Frames and the image library\<close>

text \<open>
  A frame is a pixel buffer with its shape: \<open>fheight\<close> rows and \<open>fwidth\<close> columns,
  and \<open>pix fr r c\<close> the pixel in row \<open>r\<close>, column \<open>c\<close>. The pixel type is left open
  where the code only moves pixels.
\<close>

record 'p frame =
  fheight :: nat
  fwidth :: nat
  pix :: "nat \<Rightarrow> nat \<Rightarrow> 'p"

text \<open>\<open>fr[y1:y2, x1:x2]\<close> read as a sub-image.\<close>

definition get_slice :: "'p frame \<Rightarrow> int \<Rightarrow> int \<Rightarrow> int \<Rightarrow> int \<Rightarrow> 'p frame" where
  "get_slice fr y1 y2 x1 x2 =
     (let r0 = slice_bound (fheight fr) y1; r1 = slice_bound (fheight fr) y2;
          c0 = slice_bound (fwidth fr) x1; c1 = slice_bound (fwidth fr) x2
      in \<lparr>fheight = r1 - r0, fwidth = c1 - c0, pix = (\<lambda>r c. pix fr (r0 + r) (c0 + c))\<rparr>)"

text \<open>
  \<open>fr[y1:y2, x1:x2] = v\<close>: the assignment writes inside the slice only; a value of
  another shape raises (broadcasting of a one-row or one-column value is not modelled).
\<close>

definition set_slice :: "'p frame \<Rightarrow> int \<Rightarrow> int \<Rightarrow> int \<Rightarrow> int \<Rightarrow> 'p frame \<Rightarrow> error + 'p frame" where
  "set_slice fr y1 y2 x1 x2 v =
     (let r0 = slice_bound (fheight fr) y1; r1 = slice_bound (fheight fr) y2;
          c0 = slice_bound (fwidth fr) x1; c1 = slice_bound (fwidth fr) x2
      in if fheight v = r1 - r0 \<and> fwidth v = c1 - c0 then
           Inr (fr\<lparr>pix := (\<lambda>r c. if r0 \<le> r \<and> r < r1 \<and> c0 \<le> c \<and> c < c1
                                  then pix v (r - r0) (c - c0) else pix fr r c)\<rparr>)
         else Inl ValueError)"

datatype interpolation = INTER_LINEAR | INTER_NEAREST

text \<open>
  The OpenCV operations the code calls are parameters of the model; each may raise.
  \<open>resize img (width, height) interpolation\<close> takes the target size as OpenCV does,
  width first. \<open>filter2D img k\<close> stands for the call with the horizontal box kernel of
  size \<open>k\<close>.
\<close>

record 'p cv2 =
  GaussianBlur :: "'p frame \<Rightarrow> int \<times> int \<Rightarrow> real \<Rightarrow> error + 'p frame"
  resize :: "'p frame \<Rightarrow> int \<times> int \<Rightarrow> interpolation \<Rightarrow> error + 'p frame"
  filter2D :: "'p frame \<Rightarrow> int \<Rightarrow> error + 'p frame"

section \<open>Blurring of the Flask processor\<close>

text \<open>
  The blur of one region of interest in \<open>UltraFastNSFWProcessor._apply_ultra_fast_blur\<close>:
  a Gaussian blur with a kernel adapted to the size of the region, then pixelation.
\<close>

definition blur_roi :: "'p cv2 \<Rightarrow> 'p frame \<Rightarrow> error + 'p frame" where
  "blur_roi cv roi =
     (let h = int (fheight roi); w = int (fwidth roi);
          k = min 15 (max 5 (min (w div 4) (h div 4)));
          kernel_size = (if k mod 2 = 0 then k + 1 else k)
      in case GaussianBlur cv roi (kernel_size, kernel_size) 0 of
           Inl e \<Rightarrow> Inl e
         | Inr blurred \<Rightarrow>
             (let pixel_size = max 2 (min (w div 12) (h div 12))
              in if pixel_size > 1 then
                   (case resize cv blurred (w div pixel_size, h div pixel_size) INTER_LINEAR of
                      Inl e \<Rightarrow> Inl e
                    | Inr small \<Rightarrow> resize cv small (w, h) INTER_NEAREST)
                 else Inr blurred))"

text \<open>
  The loop body for one region. The write into the frame is the last step, so a raise in
  the body leaves the frame as it was before this region.
\<close>

definition blur_region :: "'p cv2 \<Rightarrow> 'p frame \<Rightarrow> region \<Rightarrow> error + 'p frame" where
  "blur_region cv fr rg =
     (case rg of (x1, y1, x2, y2, class_name, cf) \<Rightarrow>
        if x2 > x1 \<and> y2 > y1 then
          (let roi = get_slice fr y1 y2 x1 x2
           in if fheight roi * fwidth roi * 3 > 0 then
                (case blur_roi cv roi of
                   Inl e \<Rightarrow> Inl e
                 | Inr blurred \<Rightarrow> set_slice fr y1 y2 x1 x2 blurred)
              else Inr fr)
        else Inr fr)"

text \<open>
  \<open>_apply_ultra_fast_blur(frame, blur_regions)\<close> works on the buffer it is given. The
  result is the content of that buffer when the loop ends, with \<open>Some e\<close> when the loop
  ended by raising \<open>e\<close>: the regions written before the raise stay written.
\<close>

fun apply_ultra_fast_blur :: "'p cv2 \<Rightarrow> 'p frame \<Rightarrow> region list \<Rightarrow> error option \<times> 'p frame" where
  "apply_ultra_fast_blur cv fr [] = (None, fr)"
| "apply_ultra_fast_blur cv fr (rg # rgs) =
     (case blur_region cv fr rg of
        Inl e \<Rightarrow> (Some e, fr)
      | Inr fr' \<Rightarrow> apply_ultra_fast_blur cv fr' rgs)"

section \<open>The Flask processor and its result cache\<close>

text \<open>
  A frame id is what the caller supplies: a string or a number, or nothing. The test
  \<open>if frame_id\<close> holds for a non-empty string and a non-zero number.
\<close>

datatype frame_key = StrId string | IntId int

definition truthy :: "frame_key option \<Rightarrow> bool" where
  "truthy fid = (case fid of None \<Rightarrow> False | Some (StrId s) \<Rightarrow> s \<noteq> [] | Some (IntId n) \<Rightarrow> n \<noteq> 0)"

text \<open>Frames are passed by reference: an address of the store of pixel buffers.\<close>

type_synonym addr = nat

record detection =
  det_class :: string
  det_confidence :: real
  det_bbox :: "int list"

record cache_entry =
  ce_result :: addr
  ce_detections :: "detection list"
  ce_timestamp :: real

text \<open>
  The state a call works on: the store \<open>heap\<close> of pixel buffers and the attributes of
  the \<open>UltraFastNSFWProcessor\<close> object. \<open>model_calls\<close> is not in the source: it counts
  the invocations of the detector. A \<open>model\<close> that is \<open>None\<close> is the object before
  \<open>initialize_model\<close>.
\<close>

record 'p processor =
  heap :: "addr \<Rightarrow> 'p frame"
  model :: "('p frame \<Rightarrow> real \<Rightarrow> int \<Rightarrow> error + results) option"
  model_calls :: nat
  resize_factor :: real
  confidence_threshold :: real
  max_detections :: int
  frame_cache :: "frame_key \<rightharpoonup> cache_entry"
  cache_ttl :: real
  processing_times :: "real list"
  request_count :: nat
  nsfw_classes :: "string list"

text \<open>The readings of \<open>time.time()\<close> during one call of \<open>process_frame\<close>, in order.\<close>

record clock =
  t_start :: real
  t_lookup :: real
  t_store :: real
  t_clean :: real
  t_end :: real

text \<open>\<open>_clean_cache\<close>: delete the entries older than the time-to-live.\<close>

definition clean_cache :: "real \<Rightarrow> 'p processor \<Rightarrow> 'p processor" where
  "clean_cache current_time st =
     st\<lparr>frame_cache := (\<lambda>k. case frame_cache st k of
                               None \<Rightarrow> None
                             | Some v \<Rightarrow> if current_time - ce_timestamp v > cache_ttl st then None else Some v)\<rparr>"

text \<open>The cache check at the head of \<open>process_frame\<close>.\<close>

definition cache_lookup :: "'p processor \<Rightarrow> real \<Rightarrow> frame_key option \<Rightarrow> (addr \<times> detection list) option" where
  "cache_lookup st now fid =
     (if truthy fid then
        (case frame_cache st (the fid) of
           None \<Rightarrow> None
         | Some cache_entry \<Rightarrow>
             if now - ce_timestamp cache_entry < cache_ttl st
             then Some (ce_result cache_entry, ce_detections cache_entry) else None)
      else None)"

definition to_detection :: "region \<Rightarrow> detection" where
  "to_detection rg =
     (case rg of (x1, y1, x2, y2, class_name, cf) \<Rightarrow>
        \<lparr>det_class = class_name, det_confidence = cf, det_bbox = [x1, y1, x2, y2]\<rparr>)"

definition track_performance :: "clock \<Rightarrow> 'p processor \<Rightarrow> 'p processor" where
  "track_performance clk st =
     (let processing_time = (t_end clk - t_start clk) * 1000;
          times = processing_times st @ [processing_time];
          times' = (if length times > 100 then tl times else times)
      in st\<lparr>processing_times := times', request_count := request_count st + 1\<rparr>)"

text \<open>
  The resize before inference, shared by both processors:
  \<open>if resize_factor != 1.0: frame_resized = cv2.resize(frame, (int(width * resize_factor),
  int(height * resize_factor)))\<close>.
\<close>

definition resize_for_inference :: "'p cv2 \<Rightarrow> real \<Rightarrow> 'p frame \<Rightarrow> error + 'p frame" where
  "resize_for_inference cv rf img =
     (if rf \<noteq> 1 then
        resize cv img (py_int (real (fwidth img) * rf), py_int (real (fheight img) * rf)) INTER_LINEAR
      else Inr img)"

text \<open>\<open>resize_factor = 0.3 if fast_mode else self.resize_factor\<close>\<close>

definition effective_resize_factor :: "'p processor \<Rightarrow> bool option \<Rightarrow> real" where
  "effective_resize_factor st fast_mode = (if fast_mode = Some True then 3 / 10 else resize_factor st)"

text \<open>
  The first half of the \<open>try\<close> block of \<open>process_frame\<close> after a cache miss: resize,
  inference and region extraction. Every step that may raise returns the exception with
  the state reached so far.
\<close>

definition detect_regions ::
  "'p cv2 \<Rightarrow> string list option \<Rightarrow> 'p processor \<Rightarrow> addr \<Rightarrow> real option \<Rightarrow> bool option \<Rightarrow>
   (error + region list) \<times> 'p processor" where
  "detect_regions cv imported st fr confidence fast_mode =
     (let img = heap st fr;
          original_shape = (fheight img, fwidth img);
          conf_threshold = (case confidence of Some c \<Rightarrow> c | None \<Rightarrow> confidence_threshold st);
          rf = effective_resize_factor st fast_mode
      in case resize_for_inference cv rf img of
           Inl e \<Rightarrow> (Inl e, st)
         | Inr frame_resized \<Rightarrow>
             (case model st of
                None \<Rightarrow> (Inl TypeError, st)
              | Some detect \<Rightarrow>
                  (let st1 = st\<lparr>model_calls := model_calls st + 1\<rparr>
                   in case detect frame_resized conf_threshold (max_detections st) of
                        Inl e \<Rightarrow> (Inl e, st1)
                      | Inr res \<Rightarrow>
                          (extract_blur_regions imported (nsfw_classes st1) res original_shape rf, st1))))"

text \<open>
  The second half: the detections are built from the regions, the frame is blurred in its
  own buffer when there is a region, the result is cached when a frame id is given, and
  the statistics are updated. The cache entry holds the reference \<open>fr\<close> itself.
\<close>

definition blur_and_store ::
  "'p cv2 \<Rightarrow> clock \<Rightarrow> 'p processor \<Rightarrow> addr \<Rightarrow> frame_key option \<Rightarrow> region list \<Rightarrow>
   (error + (addr \<times> detection list)) \<times> 'p processor" where
  "blur_and_store cv clk st1 fr fid blur_regions =
     (let detections = map to_detection blur_regions;
          (raised, st2) =
            (if blur_regions \<noteq> [] then
               (case apply_ultra_fast_blur cv (heap st1 fr) blur_regions of
                  (r, img') \<Rightarrow> (r, st1\<lparr>heap := (heap st1)(fr := img')\<rparr>))
             else (None, st1))
      in case raised of
           Some e \<Rightarrow> (Inl e, st2)
         | None \<Rightarrow>
             (let st3 =
                (if truthy fid then
                   clean_cache (t_clean clk)
                     (st2\<lparr>frame_cache := (frame_cache st2)(the fid \<mapsto>
                        \<lparr>ce_result = fr, ce_detections = detections,
                         ce_timestamp = t_store clk\<rparr>)\<rparr>)
                 else st2)
              in (Inr (fr, detections), track_performance clk st3)))"

definition process_frame_miss ::
  "'p cv2 \<Rightarrow> string list option \<Rightarrow> clock \<Rightarrow> 'p processor \<Rightarrow> addr \<Rightarrow> frame_key option \<Rightarrow>
   real option \<Rightarrow> bool option \<Rightarrow> (error + (addr \<times> detection list)) \<times> 'p processor" where
  "process_frame_miss cv imported clk st fr fid confidence fast_mode =
     (case detect_regions cv imported st fr confidence fast_mode of
        (Inl e, st1) \<Rightarrow> (Inl e, st1)
      | (Inr blur_regions, st1) \<Rightarrow> blur_and_store cv clk st1 fr fid blur_regions)"

text \<open>
  \<open>process_frame(frame, frame_id, confidence_threshold=..., fast_mode=...)\<close>: the cache
  check, then the body above, and the handler \<open>except Exception: return frame, []\<close>.
\<close>

definition process_frame ::
  "'p cv2 \<Rightarrow> string list option \<Rightarrow> clock \<Rightarrow> 'p processor \<Rightarrow> addr \<Rightarrow> frame_key option \<Rightarrow>
   real option \<Rightarrow> bool option \<Rightarrow> (addr \<times> detection list) \<times> 'p processor" where
  "process_frame cv imported clk st fr fid confidence fast_mode =
     (case cache_lookup st (t_lookup clk) fid of
        Some cached \<Rightarrow> (cached, st)
      | None \<Rightarrow>
          (case process_frame_miss cv imported clk st fr fid confidence fast_mode of
             (Inl e, st') \<Rightarrow> ((fr, []), st')
           | (Inr r, st') \<Rightarrow> (r, st')))"

section \<open>The video stream processor\<close>







section \<open>Mask blending of the still-image path\<close>

text \<open>
  \<open>create_smooth_mask(width, height, padding)\<close> builds a \<open>uint8\<close> mask. One pass of
  its loop, for the ring index \<open>i\<close>: rows \<open>i\<close> and \<open>height - 1 - i\<close> are assigned the
  intensity, columns \<open>i\<close> and \<open>width - 1 - i\<close> take the minimum with it.
\<close>

definition intensity :: "int \<Rightarrow> nat \<Rightarrow> 8 word" where
  "intensity padding i = word_of_int (py_int (255 * ((real i + 1) / real_of_int padding)))"

definition set_row :: "nat \<Rightarrow> 'p \<Rightarrow> 'p frame \<Rightarrow> 'p frame" where
  "set_row i v m = m\<lparr>pix := (\<lambda>r c. if r = i then v else pix m r c)\<rparr>"

definition min_col :: "nat \<Rightarrow> 8 word \<Rightarrow> 8 word frame \<Rightarrow> 8 word frame" where
  "min_col j v m = m\<lparr>pix := (\<lambda>r c. if c = j then min (pix m r c) v else pix m r c)\<rparr>"

definition mask_ring :: "int \<Rightarrow> nat \<Rightarrow> 8 word frame \<Rightarrow> 8 word frame" where
  "mask_ring padding i m =
     (let height = fheight m; width = fwidth m; v = intensity padding i;
          m1 = (if i < height then set_row i v m else m);
          m2 = (if int height - 1 - int i \<ge> 0 then set_row (height - 1 - i) v m1 else m1);
          m3 = (if i < width then min_col i v m2 else m2);
          m4 = (if int width - 1 - int i \<ge> 0 then min_col (width - 1 - i) v m3 else m3)
      in m4)"

definition create_smooth_mask :: "int \<Rightarrow> int \<Rightarrow> int \<Rightarrow> error + 8 word frame" where
  "create_smooth_mask width height padding =
     (if width < 0 \<or> height < 0 then Inl ValueError
      else (let msk = \<lparr>fheight = nat height, fwidth = nat width, pix = (\<lambda>r c. 255)\<rparr>
            in Inr (if padding > 0 then fold (mask_ring padding) [0..<nat padding] msk else msk)))"

text \<open>A pixel has three 8-bit channels.\<close>

type_synonym pixel = "8 word \<times> 8 word \<times> 8 word"

text \<open>
  \<open>apply_multi_stage_blur(img)\<close>: Gaussian blur, motion blur with the kernel of size 15,
  then pixelation by blocks of 8.
\<close>

definition apply_multi_stage_blur :: "'p cv2 \<Rightarrow> 'p frame \<Rightarrow> error + 'p frame" where
  "apply_multi_stage_blur cv img =
     (case GaussianBlur cv img (45, 45) 15 of
        Inl e \<Rightarrow> Inl e
      | Inr blur_heavy \<Rightarrow>
          (case filter2D cv blur_heavy 15 of
             Inl e \<Rightarrow> Inl e
           | Inr blur_motion \<Rightarrow>
               (let height = int (fheight img); width = int (fwidth img); pixel_size = 8
                in case resize cv blur_motion (width div pixel_size, height div pixel_size) INTER_LINEAR of
                     Inl e \<Rightarrow> Inl e
                   | Inr small \<Rightarrow> resize cv small (width, height) INTER_NEAREST)))"

text \<open>
  One pass of the loop of \<open>apply_optimized_blur\<close> that marks a region in the combined
  mask: the box is padded by 5 and cut at the image border, and the mask takes the
  maximum with the smooth mask of the padded box.
\<close>

definition mark_region :: "8 word frame \<Rightarrow> region \<Rightarrow> error + 8 word frame" where
  "mark_region msk rg =
     (case rg of (x1, y1, x2, y2, class_name, cf) \<Rightarrow>
        (let padding = 5;
             x1_pad = max 0 (x1 - padding);
             y1_pad = max 0 (y1 - padding);
             x2_pad = min (int (fwidth msk)) (x2 + padding);
             y2_pad = min (int (fheight msk)) (y2 + padding)
         in case create_smooth_mask (x2_pad - x1_pad) (y2_pad - y1_pad) padding of
              Inl e \<Rightarrow> Inl e
            | Inr roi_mask \<Rightarrow>
                (let cur = get_slice msk y1_pad y2_pad x1_pad x2_pad
                 in if fheight cur = fheight roi_mask \<and> fwidth cur = fwidth roi_mask then
                      set_slice msk y1_pad y2_pad x1_pad x2_pad
                        (cur\<lparr>pix := (\<lambda>r c. max (pix cur r c) (pix roi_mask r c))\<rparr>)
                    else Inl ValueError)))"

fun mark_regions :: "8 word frame \<Rightarrow> region list \<Rightarrow> error + 8 word frame" where
  "mark_regions msk [] = Inr msk"
| "mark_regions msk (rg # rgs) =
     (case mark_region msk rg of
        Inl e \<Rightarrow> Inl e
      | Inr msk' \<Rightarrow> mark_regions msk' rgs)"

text \<open>
  The blend of one channel: \<open>(img * (1 - m) + blurred * m).astype(uint8)\<close> with
  \<open>m = mask / 255.0\<close>.
\<close>

definition blend_channel :: "8 word \<Rightarrow> 8 word \<Rightarrow> 8 word \<Rightarrow> 8 word" where
  "blend_channel mk p b =
     (let m = real (unat mk) / 255
      in word_of_int (py_int (real (unat p) * (1 - m) + real (unat b) * m)))"

definition blend_pixel :: "8 word \<Rightarrow> pixel \<Rightarrow> pixel \<Rightarrow> pixel" where
  "blend_pixel mk p b =
     (case p of (p0, p1, p2) \<Rightarrow> case b of (b0, b1, b2) \<Rightarrow>
        (blend_channel mk p0 b0, blend_channel mk p1 b1, blend_channel mk p2 b2))"

text \<open>\<open>apply_optimized_blur(img, blur_regions)\<close> returns a new image.\<close>

definition apply_optimized_blur :: "pixel cv2 \<Rightarrow> pixel frame \<Rightarrow> region list \<Rightarrow> error + pixel frame" where
  "apply_optimized_blur cv img blur_regions =
     (let result_img = img;
          msk = \<lparr>fheight = fheight img, fwidth = fwidth img, pix = (\<lambda>r c. 0)\<rparr>
      in case mark_regions msk blur_regions of
           Inl e \<Rightarrow> Inl e
         | Inr msk' \<Rightarrow>
             (case apply_multi_stage_blur cv img of
                Inl e \<Rightarrow> Inl e
              | Inr blurred_img \<Rightarrow>
                  if fheight blurred_img = fheight img \<and> fwidth blurred_img = fwidth img then
                    Inr (result_img\<lparr>pix := (\<lambda>r c. blend_pixel (pix msk' r c) (pix result_img r c)
                                                      (pix blurred_img r c))\<rparr>)
                  else Inl ValueError))"

text \<open>
  The padded box of a region in an image of the given shape, as \<open>apply_optimized_blur\<close>
  computes it: rows \<open>y1_pad \<le> r < y2_pad\<close>, columns \<open>x1_pad \<le> c < x2_pad\<close>.
\<close>

definition in_padded_box :: "nat \<Rightarrow> nat \<Rightarrow> region \<Rightarrow> nat \<Rightarrow> nat \<Rightarrow> bool" where
  "in_padded_box height width rg r c =
     (case rg of (x1, y1, x2, y2, class_name, cf) \<Rightarrow>
        max 0 (y1 - 5) \<le> int r \<and> int r < min (int height) (y2 + 5) \<and>
        max 0 (x1 - 5) \<le> int c \<and> int c < min (int width) (x2 + 5))"

text \<open>The box of a region, as a set of pixel positions.\<close>

definition in_box :: "region \<Rightarrow> nat \<Rightarrow> nat \<Rightarrow> bool" where
  "in_box rg r c =
     (case rg of (x1, y1, x2, y2, class_name, cf) \<Rightarrow>
        y1 \<le> int r \<and> int r < y2 \<and> x1 \<le> int c \<and> int c < x2)"

section \<open>The specification's rounding, and inputs for the examples\<close>


text \<open>
  The rectified boxes: inside the frame and not inverted.
\<close>

definition box_ok :: "nat \<Rightarrow> nat \<Rightarrow> region \<Rightarrow> bool" where
  "box_ok height width rg =
     (case rg of (x1, y1, x2, y2, cn, cf) \<Rightarrow>
        0 \<le> x1 \<and> x1 \<le> x2 \<and> x2 \<le> int width \<and> 0 \<le> y1 \<and> y1 \<le> y2 \<and> y2 \<le> int height)"

text \<open>
  A stand-in for OpenCV on one-channel images, for the examples: the Gaussian blur blacks
  the image out, \<open>resize\<close> samples the nearest pixel and raises on an empty target size
  as OpenCV does, and the filter returns its input.
\<close>

definition test_cv :: "nat cv2" where
  "test_cv =
     \<lparr>GaussianBlur = (\<lambda>img k sigma. Inr (img\<lparr>pix := (\<lambda>r c. 0)\<rparr>)),
      resize = (\<lambda>img sz interp. case sz of (w, h) \<Rightarrow>
                  if w \<le> 0 \<or> h \<le> 0 then Inl CvError
                  else Inr \<lparr>fheight = nat h, fwidth = nat w,
                            pix = (\<lambda>r c. pix img (r * fheight img div nat h) (c * fwidth img div nat w))\<rparr>),
      filter2D = (\<lambda>img k. Inr img)\<rparr>"

text \<open>The processor as \<open>__init__\<close> leaves it, with a loaded detector and a store.\<close>

definition init_processor ::
  "('p frame \<Rightarrow> real \<Rightarrow> int \<Rightarrow> error + results) \<Rightarrow> (addr \<Rightarrow> 'p frame) \<Rightarrow> 'p processor" where
  "init_processor detect hp =
     \<lparr>heap = hp, model = Some detect, model_calls = 0, resize_factor = 1 / 2,
      confidence_threshold = 1 / 2, max_detections = 20, frame_cache = Map.empty,
      cache_ttl = 1 / 10, processing_times = [], request_count = 0,
      nsfw_classes = nsfw_classes_default\<rparr>"

definition flat :: "nat \<Rightarrow> nat \<Rightarrow> nat \<Rightarrow> nat frame" where
  "flat v h w = \<lparr>fheight = h, fwidth = w, pix = (\<lambda>r c. v)\<rparr>"

text \<open>A call during which the clock does not advance.\<close>

definition clock_at :: "real \<Rightarrow> clock" where
  "clock_at t = \<lparr>t_start = t, t_lookup = t, t_store = t, t_clean = t, t_end = t\<rparr>"

text \<open>
  A detector for the examples: it finds one box in a frame whose first pixel is white and
  nothing in any other frame. The store of the examples has a white frame at address 0
  and black frames elsewhere.
\<close>

definition bright_detector :: "nat frame \<Rightarrow> real \<Rightarrow> int \<Rightarrow> error + results" where
  "bright_detector img c n =
     (if pix img 0 0 = 255 then Inr [Some [\<lparr>xyxy = (10, 10, 20, 20), conf = 9/10, cls = 2\<rparr>]]
      else Inr [])"

definition two_frames :: "addr \<Rightarrow> nat frame" where
  "two_frames a = (if a = 0 then flat 255 100 100 else flat 0 100 100)"

text \<open>The state after a first call on the white frame with the frame id \<open>f1\<close>.\<close>

definition after_first_call :: "nat processor" where
  "after_first_call =
     snd (process_frame test_cv (Some labels) (clock_at 0)
            (init_processor bright_detector two_frames) 0 (Some (StrId ''f1'')) None None)"

text \<open>
  A detector for the examples that finds two boxes, the second one pixel wide.
\<close>

definition narrow_detector :: "nat frame \<Rightarrow> real \<Rightarrow> int \<Rightarrow> error + results" where
  "narrow_detector img c n =
     Inr [Some [\<lparr>xyxy = (10, 10, 50, 50), conf = 9/10, cls = 2\<rparr>,
                \<lparr>xyxy = (60, 10, 61, 50), conf = 9/10, cls = 2\<rparr>]]"

text \<open>The same stand-in for three-channel images, and a white image.\<close>

definition test_cv_rgb :: "pixel cv2" where
  "test_cv_rgb =
     \<lparr>GaussianBlur = (\<lambda>img k sigma. Inr (img\<lparr>pix := (\<lambda>r c. (0, 0, 0))\<rparr>)),
      resize = (\<lambda>img sz interp. case sz of (w, h) \<Rightarrow>
                  if w \<le> 0 \<or> h \<le> 0 then Inl CvError
                  else Inr \<lparr>fheight = nat h, fwidth = nat w,
                            pix = (\<lambda>r c. pix img (r * fheight img div nat h) (c * fwidth img div nat w))\<rparr>),
      filter2D = (\<lambda>img k. Inr img)\<rparr>"

definition white_rgb :: "nat \<Rightarrow> nat \<Rightarrow> pixel frame" where
  "white_rgb h w = \<lparr>fheight = h, fwidth = w, pix = (\<lambda>r c. (255, 255, 255))\<rparr>"

section \<open>Coordinate rectification\<close>

lemma py_int_of_int [simp]: "py_int (real_of_int n) = n"
  by (simp add: py_int_def)

lemma clamp_box_bounds:
  "clamp_box height width c = (x1, y1, x2, y2) \<Longrightarrow>
     0 \<le> x1 \<and> x1 \<le> x2 \<and> x2 \<le> int width \<and> 0 \<le> y1 \<and> y1 \<le> y2 \<and> y2 \<le> int height"
  by (cases c) (simp add: clamp_box_def Let_def, linarith)

lemma extract_box_bounds:
  assumes "extract_box labs nsfw (height, width) rf b = Inr (Some rg)"
  shows "box_ok height width rg"
proof -
  obtain x1 y1 x2 y2 cn cf where rg: "rg = (x1, y1, x2, y2, cn, cf)"
    by (cases rg) auto
  from assms obtain sc where "clamp_box height width sc = (x1, y1, x2, y2)"
    unfolding extract_box_def Let_def rg
    by (simp split: if_splits sum.splits prod.splits)
  then show ?thesis
    unfolding rg box_ok_def by (simp add: clamp_box_bounds)
qed

lemma extract_boxes_bounds:
  "extract_boxes labs nsfw (height, width) rf bs acc = Inr rgs \<Longrightarrow>
   \<forall>rg \<in> set acc. box_ok height width rg \<Longrightarrow> \<forall>rg \<in> set rgs. box_ok height width rg"
proof (induction bs arbitrary: acc)
  case Nil
  then show ?case by simp
next
  case (Cons b bs)
  show ?case
  proof (cases "extract_box labs nsfw (height, width) rf b")
    case (Inl e)
    with Cons.prems show ?thesis by simp
  next
    case (Inr found)
    show ?thesis
    proof (cases found)
      case None
      with Inr Cons show ?thesis by simp
    next
      case (Some rg)
      have "box_ok height width rg"
        using extract_box_bounds Inr Some by blast
      with Cons.prems(2) have "\<forall>r \<in> set (acc @ [rg]). box_ok height width r" by simp
      moreover have "extract_boxes labs nsfw (height, width) rf bs (acc @ [rg]) = Inr rgs"
        using Cons.prems(1) Inr Some by simp
      ultimately show ?thesis using Cons.IH by blast
    qed
  qed
qed

lemma extract_results_bounds:
  "extract_results labs nsfw (height, width) rf res acc = Inr rgs \<Longrightarrow>
   \<forall>rg \<in> set acc. box_ok height width rg \<Longrightarrow> \<forall>rg \<in> set rgs. box_ok height width rg"
proof (induction res arbitrary: acc)
  case Nil
  then show ?case by simp
next
  case (Cons r res)
  show ?case
  proof (cases r)
    case None
    with Cons show ?thesis by simp
  next
    case (Some boxes)
    show ?thesis
    proof (cases "extract_boxes labs nsfw (height, width) rf boxes acc")
      case (Inl e)
      with Cons.prems Some show ?thesis by simp
    next
      case (Inr acc')
      have "\<forall>rg \<in> set acc'. box_ok height width rg"
        using extract_boxes_bounds[OF Inr Cons.prems(2)] .
      moreover have "extract_results labs nsfw (height, width) rf res acc' = Inr rgs"
        using Cons.prems(1) Some Inr by simp
      ultimately show ?thesis using Cons.IH by blast
    qed
  qed
qed

lemma extract_blur_regions_box_ok:
  assumes "extract_blur_regions imported nsfw res (height, width) rf = Inr rgs"
  shows "\<forall>rg \<in> set rgs. box_ok height width rg"
  using assms extract_results_bounds[of _ nsfw height width rf res "[]" rgs]
  by (simp add: extract_blur_regions_def Let_def)

lemma resize_round_trip_example:
  "extract_blur_regions (Some labels) nsfw_classes_default
      [Some [\<lparr>xyxy = (100, 100, 200, 200), conf = 9/10, cls = 2\<rparr>]] (1000, 1000) (1/2)
    = Inr [(200, 200, 400, 400, ''BUTTOCKS_EXPOSED'', 9/10)]"
  by (simp add: extract_blur_regions_def extract_box_def labels_def nsfw_classes_default_def
      py_index_def scale_coords_def int_coords_def clamp_box_def py_int_def Let_def)

text \<open>
  Claim C2. Every region that \<open>_extract_blur_regions\<close> returns, for any detector output
  and any resize factor, has \<open>0 \<le> x1 \<le> x2 \<le> width\<close> and \<open>0 \<le> y1 \<le> y2 \<le> height\<close>
  for the shape of the original frame; and the bounds step of \<open>apply_fast_blur\<close> gives
  such a box from any four integers.
\<close>

theorem rectified_box_in_bounds:
  assumes "extract_blur_regions imported nsfw res (height, width) rf = Inr rgs"
      and "(x1, y1, x2, y2, cn, cf) \<in> set rgs"
  shows "(0 \<le> x1 \<and> x1 \<le> x2 \<and> x2 \<le> int width \<and> 0 \<le> y1 \<and> y1 \<le> y2 \<and> y2 \<le> int height) \<and>
         (case clamp_box height width (a1, b1, a2, b2) of (u1, v1, u2, v2) \<Rightarrow>
            0 \<le> u1 \<and> u1 \<le> u2 \<and> u2 \<le> int width \<and> 0 \<le> v1 \<and> v1 \<le> v2 \<and> v2 \<le> int height)"
proof -
  have "box_ok height width (x1, y1, x2, y2, cn, cf)"
    using extract_blur_regions_box_ok[OF assms(1)] assms(2) by blast
  moreover have "case clamp_box height width (a1, b1, a2, b2) of (u1, v1, u2, v2) \<Rightarrow>
            0 \<le> u1 \<and> u1 \<le> u2 \<and> u2 \<le> int width \<and> 0 \<le> v1 \<and> v1 \<le> v2 \<and> v2 \<le> int height"
    using clamp_box_bounds[of height width "(a1, b1, a2, b2)"]
    by (cases "clamp_box height width (a1, b1, a2, b2)") auto
  ultimately show ?thesis by (simp add: box_ok_def)
qed

theorem rectified_box_in_bounds_witness:
  "extract_blur_regions (Some labels) nsfw_classes_default
      [Some [\<lparr>xyxy = (100, 100, 200, 200), conf = 9/10, cls = 2\<rparr>]] (1000, 1000) (1/2)
    = Inr [(200, 200, 400, 400, ''BUTTOCKS_EXPOSED'', 9/10)] \<and>
   (200, 200, 400, 400, ''BUTTOCKS_EXPOSED'', 9/10)
     \<in> set [(200, 200, 400, 400, ''BUTTOCKS_EXPOSED'', 9/10 :: real)] \<and>
   ((0::int) \<le> 200 \<and> (200::int) \<le> 400 \<and> (400::int) \<le> int 1000 \<and>
    (0::int) \<le> 200 \<and> (200::int) \<le> 400 \<and> (400::int) \<le> int 1000) \<and>
   (case clamp_box 1000 1000 (-7, 990, 1200, 3) of (u1, v1, u2, v2) \<Rightarrow>
      0 \<le> u1 \<and> u1 \<le> u2 \<and> u2 \<le> int 1000 \<and> 0 \<le> v1 \<and> v1 \<le> v2 \<and> v2 \<le> int 1000)"
  using rectified_box_in_bounds [OF resize_round_trip_example,
      of 200 200 400 400 "''BUTTOCKS_EXPOSED''" "9/10" "-7" 990 1200 3]
    resize_round_trip_example
  by simp






section \<open>Region selection\<close>




section \<open>The result cache\<close>

lemma process_frame_hit:
  "cache_lookup st (t_lookup clk) fid = Some cached \<Longrightarrow>
   process_frame cv imp clk st fr fid c fm = (cached, st)"
  by (simp add: process_frame_def)

lemma process_frame_on_miss:
  "cache_lookup st (t_lookup clk) fid = None \<Longrightarrow>
   process_frame cv imp clk st fr fid c fm =
     (case process_frame_miss cv imp clk st fr fid c fm of
        (Inl e, st') \<Rightarrow> ((fr, []), st') | (Inr r, st') \<Rightarrow> (r, st'))"
  by (simp add: process_frame_def)

lemma detect_regions_state:
  assumes "detect_regions cv imp st fr c fm = (res, st1)"
  shows "st1 = st \<or> st1 = st\<lparr>model_calls := model_calls st + 1\<rparr>"
  using assms unfolding detect_regions_def Let_def
  by (auto split: sum.splits option.splits)

lemma detect_regions_calls:
  assumes "resize_for_inference cv (effective_resize_factor st fm) (heap st fr) = Inr y"
      and "model st = Some detect"
  shows "snd (detect_regions cv imp st fr c fm) = st\<lparr>model_calls := model_calls st + 1\<rparr>"
  using assms unfolding detect_regions_def Let_def
  by (simp split: sum.splits)

lemma clean_cache_fields [simp]:
  "heap (clean_cache t st) = heap st"
  "cache_ttl (clean_cache t st) = cache_ttl st"
  "model_calls (clean_cache t st) = model_calls st"
  "model (clean_cache t st) = model st"
  by (simp_all add: clean_cache_def)

lemma track_performance_fields [simp]:
  "heap (track_performance clk st) = heap st"
  "cache_ttl (track_performance clk st) = cache_ttl st"
  "model_calls (track_performance clk st) = model_calls st"
  "frame_cache (track_performance clk st) = frame_cache st"
  "model (track_performance clk st) = model st"
  by (simp_all add: track_performance_def Let_def)

lemma blur_and_store_calls:
  "model_calls (snd (blur_and_store cv clk st fr fid rgs)) = model_calls st"
  unfolding blur_and_store_def Let_def
  by (auto split: prod.splits option.splits)

lemma blur_and_store_ttl:
  "cache_ttl (snd (blur_and_store cv clk st fr fid rgs)) = cache_ttl st"
  unfolding blur_and_store_def Let_def
  by (auto split: prod.splits option.splits)

lemma blur_and_store_result:
  assumes "blur_and_store cv clk st fr fid rgs = (Inr r, st')"
  shows "r = (fr, map to_detection rgs)"
  using assms unfolding blur_and_store_def Let_def
  by (auto split: prod.splits option.splits if_splits)

lemma blur_and_store_entry:
  assumes "blur_and_store cv clk st fr fid rgs = (Inr r, st')" and "truthy fid"
  shows "frame_cache st' (the fid) =
           (if t_clean clk - t_store clk > cache_ttl st then None
            else Some \<lparr>ce_result = fr, ce_detections = map to_detection rgs,
                       ce_timestamp = t_store clk\<rparr>)"
  using assms unfolding blur_and_store_def Let_def
  by (auto split: prod.splits option.splits if_splits simp: clean_cache_def)

lemma blur_and_store_heap:
  assumes "blur_and_store cv clk st fr fid rgs = (res, st')"
  shows "heap st' = (if rgs = [] then heap st
                     else (heap st)(fr := snd (apply_ultra_fast_blur cv (heap st fr) rgs)))"
  using assms unfolding blur_and_store_def Let_def
  by (auto split: prod.splits option.splits if_splits)

lemma process_frame_miss_ok:
  assumes "process_frame_miss cv imp clk st fr fid c fm = (Inr r, st')" and "truthy fid"
  shows "cache_ttl st' = cache_ttl st"
    and "fst r = fr"
    and "frame_cache st' (the fid) =
           (if t_clean clk - t_store clk > cache_ttl st then None
            else Some \<lparr>ce_result = fst r, ce_detections = snd r, ce_timestamp = t_store clk\<rparr>)"
proof -
  obtain rgs st1 where d: "detect_regions cv imp st fr c fm = (Inr rgs, st1)"
    and b: "blur_and_store cv clk st1 fr fid rgs = (Inr r, st')"
    using assms(1) unfolding process_frame_miss_def
    by (auto split: prod.splits sum.splits)
  have t1: "cache_ttl st1 = cache_ttl st"
    using detect_regions_state[OF d] by auto
  have "cache_ttl st' = cache_ttl st1"
    using blur_and_store_ttl[of cv clk st1 fr fid rgs] b by simp
  with t1 show "cache_ttl st' = cache_ttl st" by simp
  have r: "r = (fr, map to_detection rgs)" using blur_and_store_result[OF b] .
  then show "fst r = fr" by simp
  show "frame_cache st' (the fid) =
           (if t_clean clk - t_store clk > cache_ttl st then None
            else Some \<lparr>ce_result = fst r, ce_detections = snd r, ce_timestamp = t_store clk\<rparr>)"
    using blur_and_store_entry[OF b assms(2)] t1 r by simp
qed

lemma process_frame_miss_calls:
  assumes "resize_for_inference cv (effective_resize_factor st fm) (heap st fr) = Inr y"
      and "model st = Some detect"
  shows "model_calls (snd (process_frame_miss cv imp clk st fr fid c fm)) = model_calls st + 1"
proof -
  obtain res st1 where d: "detect_regions cv imp st fr c fm = (res, st1)"
    by (cases "detect_regions cv imp st fr c fm")
  have st1: "st1 = st\<lparr>model_calls := model_calls st + 1\<rparr>"
    using detect_regions_calls[OF assms, of imp c] d by simp
  show ?thesis
  proof (cases res)
    case (Inl e)
    then show ?thesis using d st1 by (simp add: process_frame_miss_def)
  next
    case (Inr rgs)
    then show ?thesis using d st1 blur_and_store_calls[of cv clk st1 fr fid rgs]
      by (simp add: process_frame_miss_def)
  qed
qed



lemmas eval_defs = process_frame_def cache_lookup_def truthy_def process_frame_miss_def
      detect_regions_def blur_and_store_def resize_for_inference_def effective_resize_factor_def
      init_processor_def flat_def test_cv_def clock_at_def py_int_def Let_def
      extract_blur_regions_def extract_box_def labels_def nsfw_classes_default_def
      py_index_def scale_coords_def int_coords_def clamp_box_def to_detection_def
      blur_region_def blur_roi_def get_slice_def set_slice_def slice_bound_def track_performance_def
      clean_cache_def two_frames_def bright_detector_def narrow_detector_def

lemma first_call_example:
  "process_frame_miss test_cv (Some labels) (clock_at 0)
      (init_processor bright_detector two_frames) 0 (Some (StrId ''f1'')) None None
   = (Inr (0, [\<lparr>det_class = ''BUTTOCKS_EXPOSED'', det_confidence = 9/10, det_bbox = [20, 20, 40, 40]\<rparr>]),
      after_first_call)"
  by (simp add: after_first_call_def prod_eq_iff eval_defs split: prod.splits)

lemma clean_cache_config [simp]:
  "resize_factor (clean_cache t st) = resize_factor st"
  "confidence_threshold (clean_cache t st) = confidence_threshold st"
  "nsfw_classes (clean_cache t st) = nsfw_classes st"
  "max_detections (clean_cache t st) = max_detections st"
  by (simp_all add: clean_cache_def)

lemma track_performance_config [simp]:
  "resize_factor (track_performance clk st) = resize_factor st"
  "confidence_threshold (track_performance clk st) = confidence_threshold st"
  "nsfw_classes (track_performance clk st) = nsfw_classes st"
  "max_detections (track_performance clk st) = max_detections st"
  by (simp_all add: track_performance_def Let_def)

lemma blur_and_store_config:
  assumes "blur_and_store cv clk st fr fid rgs = (res, st')"
  shows "model st' = model st \<and> resize_factor st' = resize_factor st \<and>
         confidence_threshold st' = confidence_threshold st \<and> nsfw_classes st' = nsfw_classes st \<and>
         max_detections st' = max_detections st"
  using assms unfolding blur_and_store_def Let_def
  by (auto split: prod.splits option.splits if_splits)

lemma process_frame_miss_config:
  assumes "process_frame_miss cv imp clk st fr fid c fm = (res, st')"
  shows "model st' = model st" and "resize_factor st' = resize_factor st"
    and "cache_ttl st' = cache_ttl st" and "a \<noteq> fr \<Longrightarrow> heap st' a = heap st a"
proof -
  obtain dr st1 where d: "detect_regions cv imp st fr c fm = (dr, st1)"
    by (cases "detect_regions cv imp st fr c fm")
  have s1: "model st1 = model st \<and> resize_factor st1 = resize_factor st \<and>
            cache_ttl st1 = cache_ttl st \<and> heap st1 = heap st"
    using detect_regions_state[OF d] by auto
  have all: "model st' = model st \<and> resize_factor st' = resize_factor st \<and>
             cache_ttl st' = cache_ttl st \<and> (a \<noteq> fr \<longrightarrow> heap st' a = heap st a)"
  proof (cases dr)
    case (Inl e)
    then show ?thesis using assms d s1 by (simp add: process_frame_miss_def)
  next
    case (Inr rgs)
    then have b: "blur_and_store cv clk st1 fr fid rgs = (res, st')"
      using assms d by (simp add: process_frame_miss_def)
    show ?thesis
      using blur_and_store_config[OF b] blur_and_store_heap[OF b]
        blur_and_store_ttl[of cv clk st1 fr fid rgs] b s1
      by simp
  qed
  then show "model st' = model st" and "resize_factor st' = resize_factor st"
    and "cache_ttl st' = cache_ttl st" and "a \<noteq> fr \<Longrightarrow> heap st' a = heap st a"
    by simp_all
qed

lemma served_from_cache:
  assumes "truthy fid"
      and "process_frame_miss cv imp clk1 st fr fid c1 fm1 = (Inr r, st1)"
      and "t_clean clk1 \<le> t_lookup clk2"
      and "t_lookup clk2 - t_store clk1 < cache_ttl st1"
  shows "cache_lookup st1 (t_lookup clk2) fid = Some r"
proof -
  have ttl: "cache_ttl st1 = cache_ttl st" using process_frame_miss_ok(1)[OF assms(2,1)] .
  have "\<not> t_clean clk1 - t_store clk1 > cache_ttl st"
    using assms(3,4) ttl by linarith
  then have "frame_cache st1 (the fid) =
      Some \<lparr>ce_result = fst r, ce_detections = snd r, ce_timestamp = t_store clk1\<rparr>"
    using process_frame_miss_ok(3)[OF assms(2,1)] by simp
  then show ?thesis
    using assms(1,4) by (simp add: cache_lookup_def)
qed

text \<open>
  Claim C9. When the lookup finds a fresh entry, \<open>process_frame\<close> returns it and leaves
  the state unchanged, whatever the confidence threshold and the fast mode of the call;
  so a second call within the time-to-live returns the pair that the first call computed
  with its own parameters.
\<close>

theorem cache_hit_ignores_parameters:
  "(cache_lookup st (t_lookup clk) fid = Some cached \<longrightarrow>
      process_frame cv imp clk st fr fid c fm = (cached, st) \<and>
      process_frame cv imp clk st fr fid c' fm' = process_frame cv imp clk st fr fid c fm) \<and>
   (truthy fid \<longrightarrow>
      cache_lookup st (t_lookup clk1) fid = None \<longrightarrow>
      process_frame_miss cv imp clk1 st fr fid c1 fm1 = (Inr r, st1) \<longrightarrow>
      t_clean clk1 \<le> t_lookup clk2 \<longrightarrow>
      t_lookup clk2 - t_store clk1 < cache_ttl st1 \<longrightarrow>
      process_frame cv imp clk1 st fr fid c1 fm1 = (r, st1) \<and>
      process_frame cv imp clk2 st1 fr fid c2 fm2 = (r, st1))"
proof (intro conjI impI)
  assume h: "cache_lookup st (t_lookup clk) fid = Some cached"
  show "process_frame cv imp clk st fr fid c fm = (cached, st)"
    using h by (rule process_frame_hit)
  show "process_frame cv imp clk st fr fid c' fm' = process_frame cv imp clk st fr fid c fm"
    using h by (simp add: process_frame_hit)
next
  assume a: "truthy fid" "cache_lookup st (t_lookup clk1) fid = None"
    "process_frame_miss cv imp clk1 st fr fid c1 fm1 = (Inr r, st1)"
    "t_clean clk1 \<le> t_lookup clk2" "t_lookup clk2 - t_store clk1 < cache_ttl st1"
  show "process_frame cv imp clk1 st fr fid c1 fm1 = (r, st1)"
    using process_frame_on_miss[OF a(2)] a(3) by simp
  show "process_frame cv imp clk2 st1 fr fid c2 fm2 = (r, st1)"
    using served_from_cache[OF a(1,3,4,5)] by (rule process_frame_hit)
qed

lemma after_first_call_facts:
  "cache_ttl after_first_call = 1/10"
  "model after_first_call = Some bright_detector"
  "resize_factor after_first_call = 1/2"
  "heap after_first_call (Suc 0) = flat 0 100 100"
  "model_calls after_first_call = 1"
  using process_frame_miss_config[OF first_call_example]
    process_frame_miss_calls[of test_cv "init_processor bright_detector two_frames" None 0 _
       bright_detector "Some labels" "clock_at 0" "Some (StrId ''f1'')" None]
    first_call_example
  by (simp_all add: init_processor_def two_frames_def resize_for_inference_def
       effective_resize_factor_def test_cv_def flat_def py_int_def)



theorem cache_hit_ignores_parameters_witness:
  "cache_lookup after_first_call (t_lookup (clock_at (1/20))) (Some (StrId ''f1''))
     = Some (0, [\<lparr>det_class = ''BUTTOCKS_EXPOSED'', det_confidence = 9/10, det_bbox = [20, 20, 40, 40]\<rparr>]) \<and>
   process_frame test_cv None (clock_at (1/20)) after_first_call 1 (Some (StrId ''f1''))
      (Some (99/100)) (Some True)
     = process_frame test_cv None (clock_at (1/20)) after_first_call 1 (Some (StrId ''f1'')) None None \<and>
   truthy (Some (StrId ''f1'')) \<and>
   cache_lookup (init_processor bright_detector two_frames) (t_lookup (clock_at 0))
     (Some (StrId ''f1'')) = None \<and>
   t_clean (clock_at 0) \<le> t_lookup (clock_at (1/20)) \<and>
   t_lookup (clock_at (1/20)) - t_store (clock_at 0) < cache_ttl after_first_call \<and>
   process_frame test_cv (Some labels) (clock_at (1/20)) after_first_call 0 (Some (StrId ''f1''))
      (Some (99/100)) (Some True)
   = ((0, [\<lparr>det_class = ''BUTTOCKS_EXPOSED'', det_confidence = 9/10, det_bbox = [20, 20, 40, 40]\<rparr>]),
      after_first_call)"
proof -
  have h1: "truthy (Some (StrId ''f1''))" by (simp add: truthy_def)
  have h2: "cache_lookup (init_processor bright_detector two_frames) (t_lookup (clock_at 0))
     (Some (StrId ''f1'')) = None"
    by (simp add: cache_lookup_def init_processor_def truthy_def)
  have h4: "t_clean (clock_at 0) \<le> t_lookup (clock_at (1/20))" by (simp add: clock_at_def)
  have fresh: "t_lookup (clock_at (1/20)) - t_store (clock_at 0) < cache_ttl after_first_call"
    by (simp add: clock_at_def after_first_call_facts)
  have hit: "cache_lookup after_first_call (t_lookup (clock_at (1/20))) (Some (StrId ''f1''))
     = Some (0, [\<lparr>det_class = ''BUTTOCKS_EXPOSED'', det_confidence = 9/10, det_bbox = [20, 20, 40, 40]\<rparr>])"
    using served_from_cache[OF h1 first_call_example h4 fresh] .
  show ?thesis
    using cache_hit_ignores_parameters [where st = after_first_call and clk = "clock_at (1/20)"
        and fid = "Some (StrId ''f1'')" and cv = test_cv and imp = None and fr = 1
        and c = None and fm = None and c' = "Some (99/100)" and fm' = "Some True"]
      cache_hit_ignores_parameters [where fid = "Some (StrId ''f1'')" and cv = test_cv
        and imp = "Some labels" and fr = 0 and ?c1.0 = None and ?fm1.0 = None
        and ?st = "init_processor bright_detector two_frames" and ?clk1.0 = "clock_at 0"
        and ?st1.0 = after_first_call and ?clk2.0 = "clock_at (1/20)"
        and ?c2.0 = "Some (99/100)" and ?fm2.0 = "Some True"]
      hit h1 h2 h4 fresh first_call_example
    by simp
qed

section \<open>Frames without a qualifying region\<close>








section \<open>In-place blurring and error containment\<close>





text \<open>
  What the handler does guarantee: an exception in the body is not propagated, the
  reference of the caller's frame comes back with an empty detection list, and when the
  exception is raised by the resize, the inference or the region extraction, no pixel
  buffer has changed.
\<close>

lemma exception_is_contained:
  assumes "cache_lookup st (t_lookup clk) fid = None"
      and "process_frame_miss cv imp clk st fr fid c fm = (Inl e, st')"
  shows "process_frame cv imp clk st fr fid c fm = ((fr, []), st')"
  using process_frame_on_miss[OF assms(1)] assms(2) by simp

lemma exception_before_blur_keeps_frame:
  assumes "cache_lookup st (t_lookup clk) fid = None"
      and "detect_regions cv imp st fr c fm = (Inl e, st1)"
  shows "process_frame cv imp clk st fr fid c fm = ((fr, []), st1)" and "heap st1 = heap st"
proof -
  have "process_frame_miss cv imp clk st fr fid c fm = (Inl e, st1)"
    using assms(2) by (simp add: process_frame_miss_def)
  then show "process_frame cv imp clk st fr fid c fm = ((fr, []), st1)"
    using assms(1) by (rule exception_is_contained[rotated])
  show "heap st1 = heap st"
    using detect_regions_state[OF assms(2)] by auto
qed


section \<open>Compositing locality\<close>

lemma slice_bound_nonneg: "0 \<le> i \<Longrightarrow> slice_bound n i = min (nat i) n"
  by (simp add: slice_bound_def)

lemma set_slice_local:
  assumes "set_slice fr y1 y2 x1 x2 v = Inr fr'"
  shows "fheight fr' = fheight fr" and "fwidth fr' = fwidth fr"
    and "\<not> (slice_bound (fheight fr) y1 \<le> r \<and> r < slice_bound (fheight fr) y2 \<and>
            slice_bound (fwidth fr) x1 \<le> c \<and> c < slice_bound (fwidth fr) x2)
         \<Longrightarrow> pix fr' r c = pix fr r c"
  using assms unfolding set_slice_def Let_def
  by (auto split: if_splits)

lemma set_slice_in_box:
  assumes "set_slice fr y1 y2 x1 x2 v = Inr fr'" and "0 \<le> x1" and "0 \<le> y1"
      and "0 \<le> x2" and "0 \<le> y2"
      and "\<not> (y1 \<le> int r \<and> int r < y2 \<and> x1 \<le> int c \<and> int c < x2)"
  shows "pix fr' r c = pix fr r c"
proof (rule set_slice_local(3)[OF assms(1)])
  show "\<not> (slice_bound (fheight fr) y1 \<le> r \<and> r < slice_bound (fheight fr) y2 \<and>
            slice_bound (fwidth fr) x1 \<le> c \<and> c < slice_bound (fwidth fr) x2)"
  proof
    assume a: "slice_bound (fheight fr) y1 \<le> r \<and> r < slice_bound (fheight fr) y2 \<and>
            slice_bound (fwidth fr) x1 \<le> c \<and> c < slice_bound (fwidth fr) x2"
    have "r < fheight fr" "c < fwidth fr"
      using a by (auto simp: slice_bound_def split: if_splits)
    then have "y1 \<le> int r \<and> int r < y2 \<and> x1 \<le> int c \<and> int c < x2"
      using a assms(2-5) by (auto simp: slice_bound_nonneg)
    with assms(6) show False by contradiction
  qed
qed

lemma blur_region_cases:
  assumes "blur_region cv fr (x1, y1, x2, y2, cn, cf) = Inr fr'"
  shows "fr' = fr \<or> (x1 < x2 \<and> y1 < y2 \<and> (\<exists>v. set_slice fr y1 y2 x1 x2 v = Inr fr'))"
proof (cases "x2 > x1 \<and> y2 > y1")
  case False
  then have "blur_region cv fr (x1, y1, x2, y2, cn, cf) = Inr fr"
    unfolding blur_region_def by (simp only: prod.case if_False)
  then show ?thesis using assms by simp
next
  case True
  let ?roi = "get_slice fr y1 y2 x1 x2"
  have eq: "blur_region cv fr (x1, y1, x2, y2, cn, cf) =
      (if fheight ?roi * fwidth ?roi * 3 > 0 then
         (case blur_roi cv ?roi of Inl e \<Rightarrow> Inl e | Inr blurred \<Rightarrow> set_slice fr y1 y2 x1 x2 blurred)
       else Inr fr)"
    unfolding blur_region_def Let_def using True by (simp only: prod.case if_True simp_thms)
  show ?thesis
  proof (cases "fheight ?roi * fwidth ?roi * 3 > 0")
    case False
    then have "blur_region cv fr (x1, y1, x2, y2, cn, cf) = Inr fr"
      unfolding eq by (simp only: if_False)
    then show ?thesis using assms by simp
  next
    case nonempty: True
    have eq2: "blur_region cv fr (x1, y1, x2, y2, cn, cf) =
         (case blur_roi cv ?roi of Inl e \<Rightarrow> Inl e | Inr blurred \<Rightarrow> set_slice fr y1 y2 x1 x2 blurred)"
      unfolding eq using nonempty by (simp only: if_True)
    show ?thesis
    proof (cases "blur_roi cv ?roi")
      case (Inl e)
      then show ?thesis using assms unfolding eq2 by simp
    next
      case (Inr blurred)
      then have "set_slice fr y1 y2 x1 x2 blurred = Inr fr'"
        using assms unfolding eq2 by simp
      then show ?thesis using True by blast
    qed
  qed
qed

lemma blur_region_local:
  assumes "blur_region cv fr rg = Inr fr'" and "box_ok h w rg"
  shows "fheight fr' = fheight fr \<and> fwidth fr' = fwidth fr \<and>
         (\<not> in_box rg r c \<longrightarrow> pix fr' r c = pix fr r c)"
proof -
  obtain x1 y1 x2 y2 cn cf where rg: "rg = (x1, y1, x2, y2, cn, cf)"
    by (cases rg) auto
  have nn: "0 \<le> x1" "0 \<le> y1" using assms(2) by (auto simp: box_ok_def rg)
  have "fr' = fr \<or> (x1 < x2 \<and> y1 < y2 \<and> (\<exists>v. set_slice fr y1 y2 x1 x2 v = Inr fr'))"
    using assms(1) unfolding rg by (rule blur_region_cases)
  then show ?thesis
  proof
    assume "fr' = fr" then show ?thesis by simp
  next
    assume "x1 < x2 \<and> y1 < y2 \<and> (\<exists>v. set_slice fr y1 y2 x1 x2 v = Inr fr')"
    then obtain v where v: "set_slice fr y1 y2 x1 x2 v = Inr fr'"
      and pos: "0 \<le> x2" "0 \<le> y2" using nn by auto
    have "\<not> in_box rg r c \<Longrightarrow> pix fr' r c = pix fr r c"
      using set_slice_in_box[OF v nn pos, of r c] by (simp add: in_box_def rg)
    then show ?thesis
      using set_slice_local(1,2)[OF v] by simp
  qed
qed

lemma apply_ultra_fast_blur_local:
  assumes "apply_ultra_fast_blur cv fr rgs = (e, fr')"
      and "\<forall>rg \<in> set rgs. box_ok h w rg"
  shows "fheight fr' = fheight fr \<and> fwidth fr' = fwidth fr \<and>
         ((\<forall>rg \<in> set rgs. \<not> in_box rg r c) \<longrightarrow> pix fr' r c = pix fr r c)"
  using assms
proof (induction rgs arbitrary: fr)
  case Nil
  then show ?case by simp
next
  case (Cons rg rgs)
  show ?case
  proof (cases "blur_region cv fr rg")
    case (Inl err)
    with Cons.prems show ?thesis by simp
  next
    case (Inr fr1)
    have ok: "box_ok h w rg" using Cons.prems(2) by simp
    have step: "fheight fr1 = fheight fr \<and> fwidth fr1 = fwidth fr \<and>
         (\<not> in_box rg r c \<longrightarrow> pix fr1 r c = pix fr r c)"
      using blur_region_local[OF Inr ok] .
    have rest: "apply_ultra_fast_blur cv fr1 rgs = (e, fr')"
      using Cons.prems(1) Inr by simp
    have "fheight fr' = fheight fr1 \<and> fwidth fr' = fwidth fr1 \<and>
         ((\<forall>rg \<in> set rgs. \<not> in_box rg r c) \<longrightarrow> pix fr' r c = pix fr1 r c)"
      using Cons.IH[OF rest] Cons.prems(2) by simp
    with step show ?thesis by simp
  qed
qed

lemma mask_ring_shape [simp]:
  "fheight (mask_ring p i m) = fheight m" "fwidth (mask_ring p i m) = fwidth m"
  by (simp_all add: mask_ring_def Let_def set_row_def min_col_def)

lemma fold_mask_ring_shape [simp]:
  "fheight (fold (mask_ring p) is m) = fheight m" "fwidth (fold (mask_ring p) is m) = fwidth m"
  by (induction "is" arbitrary: m) simp_all

lemma create_smooth_mask_shape:
  assumes "create_smooth_mask width height padding = Inr m"
  shows "0 \<le> width" "0 \<le> height" "fheight m = nat height" "fwidth m = nat width"
  using assms unfolding create_smooth_mask_def Let_def
  by (auto split: if_splits)

lemma mark_region_local:
  assumes "mark_region msk rg = Inr msk'"
  shows "fheight msk' = fheight msk \<and> fwidth msk' = fwidth msk \<and>
         (\<not> in_padded_box (fheight msk) (fwidth msk) rg r c \<longrightarrow> pix msk' r c = pix msk r c)"
proof -
  obtain x1 y1 x2 y2 cn cf where rg: "rg = (x1, y1, x2, y2, cn, cf)"
    by (cases rg) auto
  let ?x1p = "max 0 (x1 - 5)" and ?y1p = "max 0 (y1 - 5)"
  let ?x2p = "min (int (fwidth msk)) (x2 + 5)" and ?y2p = "min (int (fheight msk)) (y2 + 5)"
  obtain v roi_mask where v: "set_slice msk ?y1p ?y2p ?x1p ?x2p v = Inr msk'"
    and cm: "create_smooth_mask (?x2p - ?x1p) (?y2p - ?y1p) 5 = Inr roi_mask"
    using assms unfolding mark_region_def rg Let_def
    by (auto split: sum.splits if_splits)
  have nn: "0 \<le> ?x1p" "0 \<le> ?y1p" by simp_all
  have pos: "0 \<le> ?x2p" "0 \<le> ?y2p"
    using create_smooth_mask_shape(1,2)[OF cm] nn by linarith+
  show ?thesis
    using set_slice_local(1,2)[OF v] set_slice_in_box[OF v nn pos, of r c]
    by (auto simp: in_padded_box_def rg)
qed

lemma mark_regions_local:
  assumes "mark_regions msk rgs = Inr msk'"
  shows "fheight msk' = fheight msk \<and> fwidth msk' = fwidth msk \<and>
         ((\<forall>rg \<in> set rgs. \<not> in_padded_box (fheight msk) (fwidth msk) rg r c)
            \<longrightarrow> pix msk' r c = pix msk r c)"
  using assms
proof (induction rgs arbitrary: msk)
  case Nil
  then show ?case by simp
next
  case (Cons rg rgs)
  show ?case
  proof (cases "mark_region msk rg")
    case (Inl err)
    with Cons.prems show ?thesis by simp
  next
    case (Inr m1)
    have step: "fheight m1 = fheight msk \<and> fwidth m1 = fwidth msk \<and>
         (\<not> in_padded_box (fheight msk) (fwidth msk) rg r c \<longrightarrow> pix m1 r c = pix msk r c)"
      using mark_region_local[OF Inr] .
    have rest: "mark_regions m1 rgs = Inr msk'"
      using Cons.prems Inr by simp
    show ?thesis using Cons.IH[OF rest] step by simp
  qed
qed

lemma py_int_of_nat: "py_int (real n) = int n"
  by (simp add: py_int_def)

lemma word_of_py_int_unat: "word_of_int (py_int (real (unat (p :: 8 word)))) = p"
  unfolding py_int_of_nat by simp

lemma blend_channel_zero [simp]: "blend_channel 0 p b = p"
  unfolding blend_channel_def Let_def
  using word_of_py_int_unat[of p] by simp

lemma blend_pixel_zero [simp]: "blend_pixel 0 p b = p"
  by (cases p; cases b) (simp add: blend_pixel_def)

lemma apply_optimized_blur_local:
  assumes "apply_optimized_blur cv img rgs = Inr out"
  shows "fheight out = fheight img \<and> fwidth out = fwidth img \<and>
         ((\<forall>rg \<in> set rgs. \<not> in_padded_box (fheight img) (fwidth img) rg r c)
            \<longrightarrow> pix out r c = pix img r c)"
proof -
  let ?zeros = "\<lparr>fheight = fheight img, fwidth = fwidth img, pix = (\<lambda>r c. 0 :: 8 word)\<rparr>"
  obtain msk' and blurred :: "pixel frame" where m: "mark_regions ?zeros rgs = Inr msk'"
    and out: "out = img\<lparr>pix := (\<lambda>r c. blend_pixel (pix msk' r c) (pix img r c) (pix blurred r c))\<rparr>"
    using assms unfolding apply_optimized_blur_def Let_def
    by (auto split: sum.splits if_splits)
  have "(\<forall>rg \<in> set rgs. \<not> in_padded_box (fheight img) (fwidth img) rg r c) \<longrightarrow> pix msk' r c = 0"
    using mark_regions_local[OF m, of r c] by simp
  then show ?thesis using out by auto
qed

text \<open>
  Claim C5. \<open>_apply_ultra_fast_blur\<close>, given rectified regions, leaves the shape of the
  frame as it is and every pixel outside every region unchanged (it pads by nothing), also
  when it raises part-way; \<open>apply_optimized_blur\<close> returns an image of the same shape
  in which every pixel outside every padded box is the pixel of the input.
\<close>

theorem compositing_locality:
  "(apply_ultra_fast_blur cv fr rgs = (e, fr') \<longrightarrow>
      (\<forall>rg \<in> set rgs. box_ok (fheight fr) (fwidth fr) rg) \<longrightarrow>
      fheight fr' = fheight fr \<and> fwidth fr' = fwidth fr \<and>
      (\<forall>r c. (\<forall>rg \<in> set rgs. \<not> in_box rg r c) \<longrightarrow> pix fr' r c = pix fr r c)) \<and>
   (apply_optimized_blur cv' img rgs' = Inr out \<longrightarrow>
      fheight out = fheight img \<and> fwidth out = fwidth img \<and>
      (\<forall>r c. (\<forall>rg \<in> set rgs'. \<not> in_padded_box (fheight img) (fwidth img) rg r c)
               \<longrightarrow> pix out r c = pix img r c))"
proof (intro conjI impI allI)
  assume a: "apply_ultra_fast_blur cv fr rgs = (e, fr')"
    "\<forall>rg \<in> set rgs. box_ok (fheight fr) (fwidth fr) rg"
  show "fheight fr' = fheight fr" "fwidth fr' = fwidth fr"
    using apply_ultra_fast_blur_local[OF a] by simp_all
  fix r c
  assume "\<forall>rg \<in> set rgs. \<not> in_box rg r c"
  then show "pix fr' r c = pix fr r c"
    using apply_ultra_fast_blur_local[OF a, of r c] by simp
next
  assume a: "apply_optimized_blur cv' img rgs' = Inr out"
  show "fheight out = fheight img" "fwidth out = fwidth img"
    using apply_optimized_blur_local[OF a] by simp_all
  fix r c
  assume "\<forall>rg \<in> set rgs'. \<not> in_padded_box (fheight img) (fwidth img) rg r c"
  then show "pix out r c = pix img r c"
    using apply_optimized_blur_local[OF a, of r c] by simp
qed

lemma optimized_blur_example:
  "\<exists>out. apply_optimized_blur test_cv_rgb (white_rgb 100 100)
      [(20, 20, 40, 40, ''BUTTOCKS_EXPOSED'', 9/10)] = Inr out"
  by (simp add: apply_optimized_blur_def mark_region_def create_smooth_mask_def
      get_slice_def set_slice_def slice_bound_def apply_multi_stage_blur_def
      test_cv_rgb_def white_rgb_def Let_def)

lemma ultra_fast_blur_example:
  "fst (apply_ultra_fast_blur test_cv (flat 255 100 100)
     [(20, 20, 40, 40, ''BUTTOCKS_EXPOSED'', 9/10)]) = None"
  by (simp add: test_cv_def flat_def
      blur_region_def blur_roi_def get_slice_def set_slice_def slice_bound_def Let_def)

theorem compositing_locality_witness:
  "apply_ultra_fast_blur test_cv (flat 255 100 100) [(20, 20, 40, 40, ''BUTTOCKS_EXPOSED'', 9/10)]
     = (None, snd (apply_ultra_fast_blur test_cv (flat 255 100 100)
                     [(20, 20, 40, 40, ''BUTTOCKS_EXPOSED'', 9/10)])) \<and>
   box_ok (fheight (flat 255 100 100)) (fwidth (flat 255 100 100))
     (20, 20, 40, 40, ''BUTTOCKS_EXPOSED'', 9/10) \<and>
   fheight (snd (apply_ultra_fast_blur test_cv (flat 255 100 100)
                     [(20, 20, 40, 40, ''BUTTOCKS_EXPOSED'', 9/10)])) = 100 \<and>
   fwidth (snd (apply_ultra_fast_blur test_cv (flat 255 100 100)
                     [(20, 20, 40, 40, ''BUTTOCKS_EXPOSED'', 9/10)])) = 100 \<and>
   pix (snd (apply_ultra_fast_blur test_cv (flat 255 100 100)
                     [(20, 20, 40, 40, ''BUTTOCKS_EXPOSED'', 9/10)])) 40 20 = 255 \<and>
   (case apply_optimized_blur test_cv_rgb (white_rgb 100 100)
           [(20, 20, 40, 40, ''BUTTOCKS_EXPOSED'', 9/10)] of
      Inl e \<Rightarrow> False
    | Inr out \<Rightarrow> fheight out = 100 \<and> fwidth out = 100 \<and> pix out 45 20 = (255, 255, 255))"
proof -
  let ?rgs = "[(20, 20, 40, 40, ''BUTTOCKS_EXPOSED'', 9/10 :: real)]"
  have h1: "apply_ultra_fast_blur test_cv (flat 255 100 100) ?rgs
     = (None, snd (apply_ultra_fast_blur test_cv (flat 255 100 100) ?rgs))"
    using ultra_fast_blur_example by (simp add: prod_eq_iff)
  have h2: "\<forall>rg \<in> set ?rgs. box_ok (fheight (flat 255 100 100)) (fwidth (flat 255 100 100)) rg"
    by (simp add: box_ok_def flat_def)
  obtain out where h3: "apply_optimized_blur test_cv_rgb (white_rgb 100 100) ?rgs = Inr out"
    using optimized_blur_example by blast
  have out1: "\<forall>rg \<in> set ?rgs. \<not> in_box rg 40 20"
    by (simp add: in_box_def)
  have out2: "\<forall>rg \<in> set ?rgs. \<not> in_padded_box (fheight (white_rgb 100 100)) (fwidth (white_rgb 100 100)) rg 45 20"
    by (simp add: in_padded_box_def white_rgb_def)
  show ?thesis
    using compositing_locality [where cv = test_cv and fr = "flat 255 100 100" and rgs = ?rgs
        and e = None and fr' = "snd (apply_ultra_fast_blur test_cv (flat 255 100 100) ?rgs)"
        and cv' = test_cv_rgb and img = "white_rgb 100 100" and rgs' = ?rgs and out = out]
      h1 h2 h3 out1 out2
    by (simp add: flat_def white_rgb_def)
qed

section \<open>The smooth edge mask\<close>

lemma intensity_floor:
  assumes "0 < padding"
  shows "py_int (255 * ((real i + 1) / real_of_int padding)) = (255 * (int i + 1)) div padding"
proof -
  have "255 * ((real i + 1) / real_of_int padding) = real_of_int (255 * (int i + 1)) / real_of_int padding"
    by simp
  moreover have "0 \<le> real_of_int (255 * (int i + 1)) / real_of_int padding"
    using assms by simp
  ultimately show ?thesis
    unfolding py_int_def by (simp only: if_True floor_divide_of_int_eq)
qed

lemma intensity_unat:
  assumes "0 < padding" and "int i < padding"
  shows "unat (intensity padding i) = (255 * (i + 1)) div nat padding"
    and "intensity padding i = word_of_nat ((255 * (i + 1)) div nat padding)"
proof -
  let ?q = "(255 * (i + 1)) div nat padding"
  have "int ?q = int (255 * (i + 1)) div int (nat padding)" by (rule zdiv_int)
  also have "int (255 * (i + 1)) = 255 * (int i + 1)" by simp
  also have "int (nat padding) = padding" using assms by simp
  finally have q: "(255 * (int i + 1)) div padding = int ?q" by simp
  have "255 * (i + 1) \<le> 255 * nat padding" using assms by simp
  then have "?q \<le> (255 * nat padding) div nat padding" by (rule div_le_mono)
  also have "\<dots> = 255" using assms by simp
  finally have "?q < 2 ^ 8" by simp
  show w: "intensity padding i = word_of_nat ?q"
    unfolding intensity_def intensity_floor[OF assms(1)] q by simp
  show "unat (intensity padding i) = ?q"
    unfolding w using \<open>?q < 2 ^ 8\<close> by (simp add: unat_of_nat)
qed

lemma w255: "(x :: 8 word) \<le> 255"
  using unsigned_less[of x, where 'a = nat] by (simp add: word_le_nat_alt)

lemma intensity_mono:
  assumes "0 < padding" and "int j < padding" and "i \<le> j"
  shows "intensity padding i \<le> intensity padding j"
proof -
  have "int i < padding" using assms by simp
  then have "unat (intensity padding i) = (255 * (i + 1)) div nat padding"
    using intensity_unat(1)[OF assms(1)] by simp
  moreover have "unat (intensity padding j) = (255 * (j + 1)) div nat padding"
    using intensity_unat(1)[OF assms(1,2)] .
  moreover have "(255 * (i + 1)) div nat padding \<le> (255 * (j + 1)) div nat padding"
    using assms(3) by (intro div_le_mono) simp
  ultimately show ?thesis by (simp add: word_le_nat_alt)
qed

lemma mask_ring_pix:
  assumes "fheight m = H" and "fwidth m = W" and "k < H" and "k < W"
  shows "pix (mask_ring P k m) r c =
           (let v = intensity P k;
                a = (if r = k \<or> r = H - 1 - k then v else pix m r c)
            in if c = k \<or> c = W - 1 - k then min a v else a)"
  using assms
  by (simp add: mask_ring_def Let_def set_row_def min_col_def)

lemma min_intensity:
  assumes "0 < P" and "int k < P" and "i \<le> k"
  shows "min (intensity P i) (intensity P k) = intensity P i"
  using intensity_mono[OF assms] by (simp add: min_def)

lemma min_full: "min (255 :: 8 word) x = x"
  using w255[of x] by (simp add: min_def)

lemma ring_invariant:
  assumes P: "0 < P" and H: "2 * nat P \<le> H" and W: "2 * nat P \<le> W" and k: "k \<le> nat P"
      and r: "r < H" and c: "c < W"
  shows "pix (fold (mask_ring P) [0..<k] \<lparr>fheight = H, fwidth = W, pix = (\<lambda>r c. 255)\<rparr>) r c =
           (if r < k then intensity P r
            else if H - k \<le> r then intensity P (H - 1 - r)
            else if c < k then intensity P c
            else if W - k \<le> c then intensity P (W - 1 - c)
            else 255)"
  using k
proof (induction k)
  case 0
  then show ?case using r c by simp
next
  case (Suc k)
  let ?m = "fold (mask_ring P) [0..<k] \<lparr>fheight = H, fwidth = W, pix = (\<lambda>r c. 255)\<rparr>"
  have kP: "int k < P" "k < nat P" using Suc.prems by auto
  have kH: "k < H" "k < W" using kP H W by auto
  have kk: "k < H - Suc k" "k < W - Suc k" using kP H W by auto
  have IH: "pix ?m r c =
           (if r < k then intensity P r
            else if H - k \<le> r then intensity P (H - 1 - r)
            else if c < k then intensity P c
            else if W - k \<le> c then intensity P (W - 1 - c)
            else 255)"
    using Suc.IH Suc.prems by simp
  have step: "pix (fold (mask_ring P) [0..<Suc k] \<lparr>fheight = H, fwidth = W, pix = (\<lambda>r c. 255)\<rparr>) r c =
           (let v = intensity P k;
                a = (if r = k \<or> r = H - 1 - k then v else pix ?m r c)
            in if c = k \<or> c = W - 1 - k then min a v else a)"
    using mask_ring_pix[of ?m H W k P r c] kH by simp
  have m1: "\<And>i. i \<le> k \<Longrightarrow> min (intensity P i) (intensity P k) = intensity P i"
    using min_intensity[OF P kP(1)] by simp
  consider (top) "r < k" | (rk) "r = k" | (mid) "k < r" "r < H - 1 - k"
    | (rb) "r = H - 1 - k" | (bot) "H - k \<le> r"
    by linarith
  then show ?case
  proof cases
    case top
    then have "r \<noteq> H - Suc k" "r \<noteq> k" using kk by auto
    then show ?thesis unfolding step IH Let_def using top m1[of r] kH by simp
  next
    case rk
    then show ?thesis unfolding step IH Let_def using kH kk by simp
  next
    case rb
    have "\<not> r < Suc k" "H - Suc k \<le> r" "H - Suc r = k" using rb kH kk by auto
    then show ?thesis unfolding step IH Let_def using rb by simp
  next
    case bot
    have "\<not> r < Suc k" "\<not> r < k" "H - Suc k \<le> r" "H - Suc r \<le> k" "r \<noteq> H - Suc k" "r \<noteq> k"
      using bot r kH kk by auto
    then show ?thesis unfolding step IH Let_def using bot m1[of "H - Suc r"] by simp
  next
    case mid
    have nr: "\<not> r < Suc k" "\<not> H - Suc k \<le> r" "\<not> r < k" "\<not> H - k \<le> r" "r \<noteq> k" "r \<noteq> H - Suc k"
      using mid by auto
    consider (left) "c < k" | (ck) "c = k" | (cmid) "k < c" "c < W - 1 - k"
      | (cr) "c = W - 1 - k" | (right) "W - k \<le> c"
      by linarith
    then show ?thesis
    proof cases
      case left
      then have "c \<noteq> k" "c \<noteq> W - Suc k" using kk by auto
      then show ?thesis unfolding step IH Let_def using left nr by simp
    next
      case ck
      then have "\<not> W - k \<le> c" using kk by auto
      then show ?thesis unfolding step IH Let_def using ck nr by (simp add: min_full)
    next
      case cmid
      then have "c \<noteq> k" "c \<noteq> W - Suc k" "\<not> c < Suc k" "\<not> W - Suc k \<le> c"
        "\<not> c < k" "\<not> W - k \<le> c" by auto
      then show ?thesis unfolding step IH Let_def using nr by simp
    next
      case cr
      have "\<not> c < Suc k" "\<not> c < k" "W - Suc k \<le> c" "W - Suc c = k" "\<not> W - k \<le> c"
        using cr kH kk by auto
      then show ?thesis unfolding step IH Let_def using nr cr by (simp add: min_full)
    next
      case right
      have "\<not> c < Suc k" "\<not> c < k" "W - Suc k \<le> c" "c \<noteq> W - Suc k" "c \<noteq> k"
        using right c kH kk by auto
      then show ?thesis unfolding step IH Let_def using nr right by simp
    qed
  qed
qed

lemma create_smooth_mask_fold:
  assumes "0 < padding" and "0 \<le> width" and "0 \<le> height"
  shows "create_smooth_mask width height padding =
           Inr (fold (mask_ring padding) [0..<nat padding]
                  \<lparr>fheight = nat height, fwidth = nat width, pix = (\<lambda>r c. 255)\<rparr>)"
  using assms by (simp add: create_smooth_mask_def Let_def)

lemma smooth_mask_pix:
  assumes "0 < padding" and "2 * padding \<le> width" and "2 * padding \<le> height"
      and "create_smooth_mask width height padding = Inr m"
      and "r < nat height" and "c < nat width"
  shows "pix m r c =
           (if r < nat padding then intensity padding r
            else if nat height - nat padding \<le> r then intensity padding (nat height - 1 - r)
            else if c < nat padding then intensity padding c
            else if nat width - nat padding \<le> c then intensity padding (nat width - 1 - c)
            else 255)"
proof -
  have m: "m = fold (mask_ring padding) [0..<nat padding]
                  \<lparr>fheight = nat height, fwidth = nat width, pix = (\<lambda>r c. 255)\<rparr>"
    using create_smooth_mask_fold[of padding width height] assms by simp
  have H: "2 * nat padding \<le> nat height" and W: "2 * nat padding \<le> nat width"
    using assms(1-3) by linarith+
  show ?thesis
    unfolding m using ring_invariant[OF assms(1) H W order_refl assms(5,6)] .
qed

text \<open>
  Claim C8, amended. For a positive padding and a padded box at least twice the padding
  wide and high, the mask is 255 at every pixel at least \<open>padding\<close> away from all four
  borders. Ring \<open>i\<close> of the border, counted from the outside, has the weight
  \<open>255 * (i + 1) div padding\<close>: on the top and bottom rows away from the corner squares,
  and on the left and right columns between them. The weight rises linearly from
  \<open>255 div padding\<close> on the outermost ring to 255 on the innermost ring of the border.
  Nothing is stated about the corner squares.
\<close>

theorem smooth_mask_ramp:
  assumes "0 < padding" and "2 * padding \<le> width" and "2 * padding \<le> height"
  shows "\<exists>m. create_smooth_mask width height padding = Inr m \<and>
           fheight m = nat height \<and> fwidth m = nat width \<and>
           (\<forall>r c. nat padding \<le> r \<and> r < nat height - nat padding \<and>
                  nat padding \<le> c \<and> c < nat width - nat padding \<longrightarrow> pix m r c = 255) \<and>
           (\<forall>i c. i < nat padding \<and> nat padding \<le> c \<and> c < nat width - nat padding \<longrightarrow>
                  pix m i c = intensity padding i \<and>
                  pix m (nat height - 1 - i) c = intensity padding i) \<and>
           (\<forall>j r. j < nat padding \<and> nat padding \<le> r \<and> r < nat height - nat padding \<longrightarrow>
                  pix m r j = intensity padding j \<and>
                  pix m r (nat width - 1 - j) = intensity padding j) \<and>
           (\<forall>i. i < nat padding \<longrightarrow>
                  unat (intensity padding i) = (255 * (i + 1)) div nat padding)"
proof -
  let ?m = "fold (mask_ring padding) [0..<nat padding]
                  \<lparr>fheight = nat height, fwidth = nat width, pix = (\<lambda>r c. 255)\<rparr>"
  have wh: "0 \<le> width" "0 \<le> height" using assms by linarith+
  have m: "create_smooth_mask width height padding = Inr ?m"
    using create_smooth_mask_fold[OF assms(1) wh] .
  have H: "2 * nat padding \<le> nat height" and W: "2 * nat padding \<le> nat width"
    using assms by linarith+
  note px = smooth_mask_pix[OF assms m]
  have interior: "\<forall>r c. nat padding \<le> r \<and> r < nat height - nat padding \<and>
                  nat padding \<le> c \<and> c < nat width - nat padding \<longrightarrow> pix ?m r c = 255"
  proof (intro allI impI)
    fix r c
    assume a: "nat padding \<le> r \<and> r < nat height - nat padding \<and>
                  nat padding \<le> c \<and> c < nat width - nat padding"
    then have "r < nat height" "c < nat width" by auto
    from px[OF this] a show "pix ?m r c = 255" by auto
  qed
  have rows: "\<forall>i c. i < nat padding \<and> nat padding \<le> c \<and> c < nat width - nat padding \<longrightarrow>
                  pix ?m i c = intensity padding i \<and>
                  pix ?m (nat height - 1 - i) c = intensity padding i"
  proof (intro allI impI)
    fix i c
    assume a: "i < nat padding \<and> nat padding \<le> c \<and> c < nat width - nat padding"
    then have b: "i < nat height" "c < nat width" "nat height - 1 - i < nat height"
      using H by auto
    have t: "pix ?m i c = intensity padding i"
      using px[OF b(1,2)] a by simp
    have c1: "\<not> nat height - 1 - i < nat padding" using a H by linarith
    have c2: "nat height - nat padding \<le> nat height - 1 - i" using a H by linarith
    have c3: "nat height - 1 - (nat height - 1 - i) = i" using a H by linarith
    have "pix ?m (nat height - 1 - i) c = intensity padding i"
      using px[OF b(3,2)] c1 c2 c3 by simp
    with t show "pix ?m i c = intensity padding i \<and>
                  pix ?m (nat height - 1 - i) c = intensity padding i" by simp
  qed
  have cols: "\<forall>j r. j < nat padding \<and> nat padding \<le> r \<and> r < nat height - nat padding \<longrightarrow>
                  pix ?m r j = intensity padding j \<and>
                  pix ?m r (nat width - 1 - j) = intensity padding j"
  proof (intro allI impI)
    fix j r
    assume a: "j < nat padding \<and> nat padding \<le> r \<and> r < nat height - nat padding"
    then have b: "r < nat height" "j < nat width" "nat width - 1 - j < nat width"
      using W by auto
    have nr: "\<not> r < nat padding" "\<not> nat height - nat padding \<le> r" using a by auto
    have t: "pix ?m r j = intensity padding j"
      using px[OF b(1,2)] a nr by simp
    have c1: "\<not> nat width - 1 - j < nat padding" using a W by linarith
    have c2: "nat width - nat padding \<le> nat width - 1 - j" using a W by linarith
    have c3: "nat width - 1 - (nat width - 1 - j) = j" using a W by linarith
    have "pix ?m r (nat width - 1 - j) = intensity padding j"
      using px[OF b(1,3)] nr c1 c2 c3 by simp
    with t show "pix ?m r j = intensity padding j \<and>
                  pix ?m r (nat width - 1 - j) = intensity padding j" by simp
  qed
  have ramp: "\<forall>i. i < nat padding \<longrightarrow>
                  unat (intensity padding i) = (255 * (i + 1)) div nat padding"
    using intensity_unat(1)[OF assms(1)] by auto
  show ?thesis
    using m interior rows cols ramp by (intro exI[of _ ?m]) simp
qed

lemma intensity_5_0: "intensity 5 0 = 51"
  using intensity_unat(2)[of 5 0] by simp

text \<open>
  Claim C8, as stated, fails: the ramp does not reach zero. In the mask of a 12 by 12
  padded box with padding 5 the outermost row has the weight 51.
\<close>

theorem outermost_ring_counterexample:
  "(case create_smooth_mask 12 12 5 of Inl e \<Rightarrow> None | Inr m \<Rightarrow> Some (pix m 0 6)) = Some 51"
proof -
  obtain m where m: "create_smooth_mask 12 12 5 = Inr m"
    using create_smooth_mask_fold[of 5 12 12] by simp
  have "pix m 0 6 = intensity 5 0"
    using smooth_mask_pix[of 5 12 12 m 0 6] m by simp
  then show ?thesis using m intensity_5_0 by simp
qed

theorem smooth_mask_ramp_witness:
  "(0::int) < 5 \<and> 2 * (5::int) \<le> 12 \<and>
   (case create_smooth_mask 12 12 5 of
      Inl e \<Rightarrow> False
    | Inr m \<Rightarrow> fheight m = 12 \<and> fwidth m = 12 \<and> pix m 6 6 = 255 \<and>
               pix m 1 6 = intensity 5 1 \<and> pix m 10 6 = intensity 5 1 \<and>
               pix m 6 2 = intensity 5 2 \<and> pix m 6 9 = intensity 5 2) \<and>
   unat (intensity 5 0) = 51 \<and> unat (intensity 5 4) = 255"
proof -
  have h1: "(0::int) < 5" and h2: "2 * (5::int) \<le> 12" by simp_all
  obtain m where m: "create_smooth_mask 12 12 5 = Inr m"
    and sh: "fheight m = nat 12" "fwidth m = nat 12"
    and i: "\<forall>r c. nat 5 \<le> r \<and> r < nat 12 - nat 5 \<and> nat 5 \<le> c \<and> c < nat 12 - nat 5 \<longrightarrow> pix m r c = 255"
    and rw: "\<forall>i c. i < nat 5 \<and> nat 5 \<le> c \<and> c < nat 12 - nat 5 \<longrightarrow>
                  pix m i c = intensity 5 i \<and> pix m (nat 12 - 1 - i) c = intensity 5 i"
    and cl: "\<forall>j r. j < nat 5 \<and> nat 5 \<le> r \<and> r < nat 12 - nat 5 \<longrightarrow>
                  pix m r j = intensity 5 j \<and> pix m r (nat 12 - 1 - j) = intensity 5 j"
    and rp: "\<forall>i. i < nat 5 \<longrightarrow> unat (intensity 5 i) = (255 * (i + 1)) div nat 5"
    using smooth_mask_ramp[OF h1 h2 h2] by blast
  have "pix m 6 6 = 255" using i by simp
  moreover have "pix m 1 6 = intensity 5 1 \<and> pix m 10 6 = intensity 5 1"
    using rw[rule_format, of 1 6] by simp
  moreover have "pix m 6 2 = intensity 5 2 \<and> pix m 6 9 = intensity 5 2"
    using cl[rule_format, of 2 6] by simp
  moreover have "unat (intensity 5 0) = 51" "unat (intensity 5 4) = 255"
    using rp[rule_format, of 0] rp[rule_format, of 4] by simp_all
  ultimately show ?thesis using m sh by simp
qed

end
